theory Spec2Isabelle
  imports Main "HOL-Library.Multiset"
begin

section \<open>crt-search: the identity pipeline of \<^verbatim>\<open>crt-search.c\<close>\<close>

text \<open>
  The program reads one domain from the command line, validates it, queries the
  certificate database, and then runs a small in-memory pipeline over the returned
  common names: collect, deduplicate, partition into wildcard and normal names, sort
  each partition, and print both to standard output and to \<^verbatim>\<open><domain>_identities.txt\<close>.

  A C string is modelled by the list of its bytes (\<^typ>\<open>string\<close>); the end of the list
  stands for the terminating NUL byte. A list that is the content of a C string holds no
  NUL byte itself (\<open>cstring\<close> below). The arrays \<^verbatim>\<open>raw\<close>, \<^verbatim>\<open>unique\<close>, \<^verbatim>\<open>wild\<close> and \<^verbatim>\<open>norm\<close> of
  \<^verbatim>\<open>main\<close> are modelled by the list of their filled entries, so that the counters
  \<^verbatim>\<open>raw_cnt\<close>, \<^verbatim>\<open>uniq_cnt\<close>, \<^verbatim>\<open>wild_cnt\<close> and \<^verbatim>\<open>norm_cnt\<close> are the lengths of these lists.
  Memory allocation (\<^verbatim>\<open>calloc\<close>, \<^verbatim>\<open>strdup\<close>) is taken to succeed: the source does not
  check it.
\<close>

subsection \<open>Constants\<close>

definition MAX_DOMAIN_LEN :: nat where
  "MAX_DOMAIN_LEN = 256"

definition MAX_IDENTITIES :: nat where
  "MAX_IDENTITIES = 1000000"

definition LOG_FILE :: string where
  "LOG_FILE = ''script_errors.log''"

definition EXIT_FAILURE :: int where
  "EXIT_FAILURE = 1"

subsection \<open>The C library's string functions\<close>

definition NUL :: char where
  "NUL = CHR 0x00"

definition byte :: "char \<Rightarrow> int" where
  "byte c = int (of_char c)"

definition cstring :: "string \<Rightarrow> bool" where
  "cstring s = (NUL \<notin> set s)"

text \<open>
  \<^verbatim>\<open>strcmp\<close> walks both strings while the bytes agree and are not NUL, and returns the
  difference of the first two bytes that differ, read as unsigned; past the end of a
  list it reads the terminating NUL, byte 0.
\<close>

fun strcmp :: "string \<Rightarrow> string \<Rightarrow> int" where
  "strcmp [] [] = 0"
| "strcmp [] (y # ys) = 0 - byte y"
| "strcmp (x # xs) [] = byte x - 0"
| "strcmp (x # xs) (y # ys) =
     (if x \<noteq> NUL \<and> x = y then strcmp xs ys else byte x - byte y)"

text \<open>\<^verbatim>\<open>strncmp\<close> does the same over at most \<open>n\<close> bytes.\<close>

fun strncmp :: "string \<Rightarrow> string \<Rightarrow> nat \<Rightarrow> int" where
  "strncmp xs ys 0 = 0"
| "strncmp [] [] (Suc n) = 0"
| "strncmp [] (y # ys) (Suc n) = 0 - byte y"
| "strncmp (x # xs) [] (Suc n) = byte x - 0"
| "strncmp (x # xs) (y # ys) (Suc n) =
     (if x \<noteq> NUL \<and> x = y then strncmp xs ys n else byte x - byte y)"

subsection \<open>Uniqueness: the linear set of \<^verbatim>\<open>main\<close>\<close>

text \<open>
  The inner loop of the uniqueness step: \<^verbatim>\<open>dup\<close> becomes 1 at the first entry of
  \<^verbatim>\<open>unique\<close> that \<^verbatim>\<open>strcmp\<close> finds equal to the candidate.
\<close>

fun dup_scan :: "string \<Rightarrow> string list \<Rightarrow> bool" where
  "dup_scan r [] = False"
| "dup_scan r (u # us) = (if strcmp r u = 0 then True else dup_scan r us)"

text \<open>
  The outer loop: every raw entry that is no duplicate is appended to \<^verbatim>\<open>unique\<close>; a
  duplicate is freed and dropped.
\<close>

fun uniqueness_loop :: "string list \<Rightarrow> string list \<Rightarrow> string list" where
  "uniqueness_loop [] unique = unique"
| "uniqueness_loop (r # raw) unique =
     (if dup_scan r unique then uniqueness_loop raw unique
      else uniqueness_loop raw (unique @ [r]))"

definition uniqueness :: "string list \<Rightarrow> string list" where
  "uniqueness raw = uniqueness_loop raw []"

text \<open>
  The specification's words for the deduplicated sequence: each distinct value once, at
  the place of its first occurrence.
\<close>

fun first_occurrences :: "'a list \<Rightarrow> 'a list" where
  "first_occurrences [] = []"
| "first_occurrences (x # xs) = x # first_occurrences (removeAll x xs)"

definition first_index :: "'a \<Rightarrow> 'a list \<Rightarrow> nat" where
  "first_index x xs = length (takeWhile (\<lambda>y. y \<noteq> x) xs)"

subsection \<open>Partition into wildcards and non-wildcards\<close>

fun partition_loop ::
  "string list \<Rightarrow> string list \<Rightarrow> string list \<Rightarrow> string list \<times> string list" where
  "partition_loop [] wild norm = (wild, norm)"
| "partition_loop (u # unique) wild norm =
     (if strncmp u ''*.'' 2 = 0 then partition_loop unique (wild @ [u]) norm
      else partition_loop unique wild (norm @ [u]))"

definition partition_identities :: "string list \<Rightarrow> string list \<times> string list" where
  "partition_identities unique = partition_loop unique [] []"

definition has_wildcard_prefix :: "string \<Rightarrow> bool" where
  "has_wildcard_prefix s = (take 2 s = ''*.'')"

subsection \<open>\<^verbatim>\<open>bubble_sort\<close>\<close>

text \<open>
  The two nested loops of \<^verbatim>\<open>bubble_sort\<close>, on the array as a list updated in place. The
  count \<open>n\<close> is a C \<^verbatim>\<open>int\<close>; the indices \<open>i\<close> and \<open>j\<close> start at 0 and only grow, so they are
  naturals. The source reads \<^verbatim>\<open>arr[i]\<close> and \<^verbatim>\<open>arr[j]\<close> for \<open>i < j < n\<close>: the caller owes
  \<open>n \<le> length arr\<close>, as \<^verbatim>\<open>main\<close> provides.
\<close>

function bubble_inner :: "string list \<Rightarrow> int \<Rightarrow> nat \<Rightarrow> nat \<Rightarrow> string list" where
  "bubble_inner arr n i j =
     (if int j < n
      then bubble_inner
             (if strcmp (arr ! i) (arr ! j) > 0
              then (arr[i := arr ! j])[j := arr ! i]
              else arr)
             n i (j + 1)
      else arr)"
  by pat_completeness auto
termination
  by (relation "measure (\<lambda>(arr, n, i, j). nat (n - int j))") auto

function bubble_outer :: "string list \<Rightarrow> int \<Rightarrow> nat \<Rightarrow> string list" where
  "bubble_outer arr n i =
     (if int i < n - 1
      then bubble_outer (bubble_inner arr n i (i + 1)) n (i + 1)
      else arr)"
  by pat_completeness auto
termination
  by (relation "measure (\<lambda>(arr, n, i). nat (n - int i))") auto

declare bubble_inner.simps [simp del] bubble_outer.simps [simp del]

definition bubble_sort :: "string list \<Rightarrow> int \<Rightarrow> string list" where
  "bubble_sort arr n = bubble_outer arr n 0"

text \<open>Ascending byte-wise order, as \<^verbatim>\<open>strcmp\<close> decides it.\<close>

definition strcmp_le :: "string \<Rightarrow> string \<Rightarrow> bool" where
  "strcmp_le a b = (strcmp a b \<le> 0)"

subsection \<open>The result processor of \<^verbatim>\<open>main\<close>\<close>

definition process_identities :: "string list \<Rightarrow> string list \<times> string list" where
  "process_identities raw =
     (let unique = uniqueness raw;
          (wild, norm) = partition_identities unique
      in (bubble_sort wild (int (length wild)), bubble_sort norm (int (length norm))))"

subsection \<open>Collecting the raw rows\<close>

text \<open>
  A row's value is what \<^verbatim>\<open>PQgetvalue\<close> returns: \<open>None\<close> for a null pointer, otherwise the
  string. The loop stops at the end of the rows or when \<^verbatim>\<open>raw_cnt\<close> reaches
  \<^verbatim>\<open>MAX_IDENTITIES\<close>.
\<close>

fun collect_loop :: "string option list \<Rightarrow> string list \<Rightarrow> string list" where
  "collect_loop [] raw = raw"
| "collect_loop (val # res) raw =
     (if length raw < MAX_IDENTITIES
      then (case val of
              None \<Rightarrow> collect_loop res raw
            | Some v \<Rightarrow> if v \<noteq> [] then collect_loop res (raw @ [v]) else collect_loop res raw)
      else raw)"

definition collect_raw :: "string option list \<Rightarrow> string list" where
  "collect_raw res = collect_loop res []"

text \<open>The non-null, non-empty values of the column, in row order.\<close>

definition column_values :: "string option list \<Rightarrow> string list" where
  "column_values res = map the (filter (\<lambda>val. val \<noteq> None \<and> val \<noteq> Some []) res)"

subsection \<open>The clock\<close>

text \<open>
  \<^verbatim>\<open>fatal_error\<close> reads the clock with \<^verbatim>\<open>time\<close> and \<^verbatim>\<open>localtime\<close> and formats the broken-down
  time with \<^verbatim>\<open>strftime\<close> and the format \<^verbatim>\<open>%Y-%m-%d %H:%M:%S\<close>. The fields of \<^verbatim>\<open>struct tm\<close> that
  the format reads are not negative for a time since 1900; \<^verbatim>\<open>tm_year\<close> counts from 1900 and
  \<^verbatim>\<open>tm_mon\<close> from 0. \<^verbatim>\<open>%Y\<close> prints the year in decimal, the other conversions print two
  digits, padded with a zero. The fields are C \<^verbatim>\<open>int\<close>s, so the text fits the 64 bytes of
  \<^verbatim>\<open>ts\<close>.
\<close>

record tm =
  tm_year :: nat
  tm_mon :: nat
  tm_mday :: nat
  tm_hour :: nat
  tm_min :: nat
  tm_sec :: nat

definition digit :: "nat \<Rightarrow> char" where
  "digit n = ''0123456789'' ! n"

fun dec :: "nat \<Rightarrow> string" where
  "dec n = (if n < 10 then [digit n] else dec (n div 10) @ [digit (n mod 10)])"

declare dec.simps [simp del]

definition pad2 :: "nat \<Rightarrow> string" where
  "pad2 n = (if n < 10 then CHR ''0'' # dec n else dec n)"

definition strftime_ts :: "tm \<Rightarrow> string" where
  "strftime_ts t =
     dec (1900 + tm_year t) @ ''-'' @ pad2 (tm_mon t + 1) @ ''-'' @ pad2 (tm_mday t) @
     '' '' @ pad2 (tm_hour t) @ '':'' @ pad2 (tm_min t) @ '':'' @ pad2 (tm_sec t)"




subsection \<open>The world outside the process\<close>

text \<open>
  What the program cannot decide by itself is read from an environment: the clock, whether
  files can be opened and written, and what the database answers. What it does to the
  outside is recorded as a trace of events, in program order. The program tests the result
  of no write: a write to the output file or to the log can fail unnoticed, and the trace
  then lacks the text. Standard output and standard error are taken to accept what is
  written to them.
\<close>

record env =
  local_time :: tm
    \<comment> \<open>what \<^verbatim>\<open>localtime\<close> returns for the current time\<close>
  log_opens :: bool
    \<comment> \<open>\<^verbatim>\<open>fopen(LOG_FILE, "a")\<close> returns a stream\<close>
  log_write_ok :: bool
    \<comment> \<open>the \<^verbatim>\<open>fprintf\<close> and \<^verbatim>\<open>fclose\<close> on the log succeed; the source does not test them\<close>
  regcomp_ok :: bool
    \<comment> \<open>\<^verbatim>\<open>regcomp\<close> returns 0\<close>
  probe_error :: "string option"
    \<comment> \<open>the connection of \<^verbatim>\<open>check_connectivity\<close>: \<open>None\<close> for \<^verbatim>\<open>CONNECTION_OK\<close>, otherwise
        \<^verbatim>\<open>PQerrorMessage\<close>\<close>
  dir_writable :: "string \<Rightarrow> bool"
    \<comment> \<open>\<^verbatim>\<open>stat\<close> succeeds, the path is a directory, and \<^verbatim>\<open>access(W_OK)\<close> succeeds\<close>
  connect_error :: "string option"
    \<comment> \<open>the connection of \<^verbatim>\<open>main\<close>, likewise\<close>
  query_result :: "string + string option list"
    \<comment> \<open>\<open>Inr\<close> the values of column 0, row by row, for \<^verbatim>\<open>PGRES_TUPLES_OK\<close>; \<open>Inl\<close> the
        error message otherwise\<close>
  out_opens :: bool
    \<comment> \<open>\<^verbatim>\<open>fopen(output_file, "w")\<close> returns a stream\<close>
  out_write_ok :: "nat \<Rightarrow> bool"
    \<comment> \<open>the text of the \<open>k\<close>-th \<^verbatim>\<open>fprintf\<close> on the output file reaches the file (the write
        and the final \<^verbatim>\<open>fclose\<close> succeed for it); the source does not test them\<close>

datatype event =
    Stderr string               \<comment> \<open>text written to standard error\<close>
  | Stdout string               \<comment> \<open>text written to standard output\<close>
  | LogAppend string string     \<comment> \<open>file name, text that the file received at its end\<close>
  | DbConnect string            \<comment> \<open>\<^verbatim>\<open>PQconnectdb\<close> with this connection string\<close>
  | DbQuery string "string list" \<comment> \<open>\<^verbatim>\<open>PQexecParams\<close>: query text, bound parameters\<close>
  | DbFinish                    \<comment> \<open>\<^verbatim>\<open>PQfinish\<close>\<close>
  | DirCheck string             \<comment> \<open>\<^verbatim>\<open>stat\<close> and \<^verbatim>\<open>access\<close> on this path\<close>
  | FileCreate string           \<comment> \<open>the file is created or truncated for writing\<close>
  | FileWrite string string     \<comment> \<open>file name, text that the file received\<close>
  | FileClose string            \<comment> \<open>\<^verbatim>\<open>fclose\<close> on the file\<close>

text \<open>The timestamp of \<^verbatim>\<open>fatal_error\<close>.\<close>

definition timestamp :: "env \<Rightarrow> string" where
  "timestamp e = strftime_ts (local_time e)"

text \<open>The outcome of a run that has ended: the exit status and the trace.\<close>

type_synonym outcome = "int \<times> event list"

definition is_network :: "event \<Rightarrow> bool" where
  "is_network ev = (case ev of DbConnect _ \<Rightarrow> True | DbQuery _ _ \<Rightarrow> True
                      | DbFinish \<Rightarrow> True | _ \<Rightarrow> False)"


definition is_output_file_io :: "event \<Rightarrow> bool" where
  "is_output_file_io ev = (case ev of DirCheck _ \<Rightarrow> True
                      | FileCreate _ \<Rightarrow> True | FileWrite _ _ \<Rightarrow> True
                      | FileClose _ \<Rightarrow> True | _ \<Rightarrow> False)"

fun stdout_text :: "event list \<Rightarrow> string list" where
  "stdout_text [] = []"
| "stdout_text (Stdout s # evs) = s # stdout_text evs"
| "stdout_text (_ # evs) = stdout_text evs"

fun file_text :: "string \<Rightarrow> event list \<Rightarrow> string list" where
  "file_text f [] = []"
| "file_text f (FileWrite g s # evs) = (if g = f then s # file_text f evs else file_text f evs)"
| "file_text f (_ # evs) = file_text f evs"

fun stderr_text :: "event list \<Rightarrow> string list" where
  "stderr_text [] = []"
| "stderr_text (Stderr s # evs) = s # stderr_text evs"
| "stderr_text (_ # evs) = stderr_text evs"

definition newline :: string where
  "newline = [CHR 0x0A]"

text \<open>\<^verbatim>\<open>snprintf\<close> into a buffer of \<open>sz\<close> bytes keeps at most \<open>sz - 1\<close> bytes of the text.\<close>

definition snprintf :: "nat \<Rightarrow> string \<Rightarrow> string" where
  "snprintf sz s = take (sz - 1) s"

subsection \<open>\<^verbatim>\<open>fatal_error\<close>\<close>

definition error_entry :: "string \<Rightarrow> string \<Rightarrow> string" where
  "error_entry ts msg = ''['' @ ts @ ''] ERROR: '' @ msg @ newline"

text \<open>
  The entry goes to standard error, and to the log when the log opens; the log has
  received it when the unchecked \<^verbatim>\<open>fprintf\<close> and \<^verbatim>\<open>fclose\<close> succeed.
\<close>

definition fatal_error :: "env \<Rightarrow> string \<Rightarrow> outcome" where
  "fatal_error e msg =
     (let ts = strftime_ts (local_time e)
      in (EXIT_FAILURE,
          [Stderr (error_entry ts msg)] @
          (if log_opens e \<and> log_write_ok e
           then [LogAppend LOG_FILE (error_entry ts msg)] else [])))"

text \<open>An abort after the events \<open>pre\<close> have already happened.\<close>

definition prepend :: "event list \<Rightarrow> outcome \<Rightarrow> outcome" where
  "prepend pre out = (fst out, pre @ snd out)"

subsection \<open>\<^verbatim>\<open>validate_domain\<close>\<close>

definition quote :: char where
  "quote = CHR 0x27"

definition dangerous_chars :: string where
  "dangerous_chars = [quote, CHR 0x22, CHR '';'', CHR 0x60]"

text \<open>\<^verbatim>\<open>strpbrk\<close>: the first byte of the string that is among \<open>accept\<close>, if any.\<close>

definition strpbrk :: "string \<Rightarrow> string \<Rightarrow> char option" where
  "strpbrk s accept = find (\<lambda>c. c \<in> set accept) s"

text \<open>
  The bracket expression \<^verbatim>\<open>[a-zA-Z0-9.-]\<close> in the C locale, and the match of the anchored
  pattern \<^verbatim>\<open>^[a-zA-Z0-9.-]*$\<close>: every byte of the string is in the bracket expression.
\<close>

definition in_bracket :: "char \<Rightarrow> bool" where
  "in_bracket c =
     ((byte (CHR ''a'') \<le> byte c \<and> byte c \<le> byte (CHR ''z'')) \<or>
      (byte (CHR ''A'') \<le> byte c \<and> byte c \<le> byte (CHR ''Z'')) \<or>
      (byte (CHR ''0'') \<le> byte c \<and> byte c \<le> byte (CHR ''9'')) \<or>
      c = CHR ''.'' \<or> c = CHR ''-'')"

definition regexec_domain :: "string \<Rightarrow> bool" where
  "regexec_domain s = list_all in_bracket s"

definition validate_domain :: "env \<Rightarrow> string \<Rightarrow> outcome + int" where
  "validate_domain e domain =
     (let len = length domain in
      if len = 0 \<or> len > 255
      then Inl (fatal_error e ''Domain length must be 1-255 characters'')
      else if strpbrk domain dangerous_chars \<noteq> None
      then Inl (fatal_error e (snprintf 512
             (''Domain '' @ [quote] @ domain @ [quote] @
              '' contains invalid characters (quotes, semicolon, backtick)'')))
      else if \<not> regcomp_ok e
      then Inl (fatal_error e ''Regex compilation failed'')
      else if \<not> regexec_domain domain
      then Inl (fatal_error e (snprintf 512
             (''Domain '' @ [quote] @ domain @ [quote] @
              '' must contain only alphanumeric, dot or hyphen'')))
      else Inr 1)"

text \<open>The two rules of the specification for a domain.\<close>

definition length_rule :: "string \<Rightarrow> bool" where
  "length_rule d = (1 \<le> length d \<and> length d \<le> 255)"

definition charset_rule :: "string \<Rightarrow> bool" where
  "charset_rule d = (\<forall>c \<in> set d. in_bracket c)"

subsection \<open>\<^verbatim>\<open>check_connectivity\<close>\<close>

definition conninfo :: string where
  "conninfo = ''host=crt.sh port=5432 user=guest dbname=certwatch '' @
              ''sslmode=require connect_timeout=10''"

definition check_connectivity :: "env \<Rightarrow> outcome + event list" where
  "check_connectivity e =
     (case probe_error e of
        Some msg \<Rightarrow> Inl (prepend [DbConnect conninfo] (fatal_error e msg))
      | None \<Rightarrow> Inr [DbConnect conninfo, DbFinish])"

subsection \<open>The output directory check of \<^verbatim>\<open>main\<close>\<close>

text \<open>\<^verbatim>\<open>strrchr\<close>: the index of the last occurrence of the byte, if any.\<close>

fun strrchr :: "string \<Rightarrow> char \<Rightarrow> nat option" where
  "strrchr [] c = None"
| "strrchr (x # xs) c =
     (case strrchr xs c of
        Some k \<Rightarrow> Some (Suc k)
      | None \<Rightarrow> if x = c then Some 0 else None)"

text \<open>
  The source cuts \<^verbatim>\<open>output_file\<close> at its last slash and checks the directory part; with no
  slash in the path the block does nothing.
\<close>

definition check_output_dir :: "env \<Rightarrow> string \<Rightarrow> outcome + event list" where
  "check_output_dir e output_file =
     (case strrchr output_file (CHR ''/'') of
        None \<Rightarrow> Inr []
      | Some slash \<Rightarrow>
          (let dir = take slash output_file in
           if \<not> dir_writable e dir
           then Inl (prepend [DirCheck dir] (fatal_error e ''Output directory is not writable''))
           else Inr [DirCheck dir]))"

subsection \<open>The query of \<^verbatim>\<open>main\<close>\<close>

definition sql :: string where
  "sql = ''SELECT cai.NAME_VALUE '' @
         ''FROM certificate_and_identities cai '' @
         ''WHERE plainto_tsquery('' @ [quote] @ ''certwatch'' @ [quote] @
         '', $1) @@ identities(cai.CERTIFICATE) '' @
         ''  AND cai.NAME_VALUE ILIKE '' @ [quote] @ ''%'' @ [quote] @ '' || $1 || '' @
         [quote] @ ''%'' @ [quote] @ '' '' @
         ''  AND cai.NAME_TYPE = '' @ [quote] @ ''2.5.4.3'' @ [quote] @ '' '' @
         ''LIMIT 1000000;''"

definition run_query :: "env \<Rightarrow> string \<Rightarrow> outcome + (string option list \<times> event list)" where
  "run_query e domain =
     (case connect_error e of
        Some msg \<Rightarrow> Inl (prepend [DbConnect conninfo] (fatal_error e msg))
      | None \<Rightarrow>
          (case query_result e of
             Inl msg \<Rightarrow>
               Inl (prepend [DbConnect conninfo, DbQuery sql [domain]] (fatal_error e msg))
           | Inr res \<Rightarrow> Inr (res, [DbConnect conninfo, DbQuery sql [domain]])))"

subsection \<open>The output writer of \<^verbatim>\<open>main\<close>\<close>

text \<open>
  One loop of the writer: each identity is printed to standard output and then to the file
  with \<^verbatim>\<open>fprintf\<close>, whose result the source does not test. \<open>k\<close> counts the \<^verbatim>\<open>fprintf\<close> calls
  on the file so far; the file receives the line when that write succeeds.
\<close>

fun print_loop :: "env \<Rightarrow> string \<Rightarrow> nat \<Rightarrow> string list \<Rightarrow> event list" where
  "print_loop e f k [] = []"
| "print_loop e f k (s # ss) =
     Stdout (s @ newline) #
     (if out_write_ok e k then [FileWrite f (s @ newline)] else []) @
     print_loop e f (Suc k) ss"

definition write_output ::
  "env \<Rightarrow> string \<Rightarrow> string list \<Rightarrow> string list \<Rightarrow> outcome + event list" where
  "write_output e output_file wild norm =
     (if \<not> out_opens e
      then Inl (fatal_error e ''Cannot create output file'')
      else Inr ([FileCreate output_file] @
                print_loop e output_file 0 wild @
                print_loop e output_file (length wild) norm @
                [FileClose output_file]))"

subsection \<open>\<^verbatim>\<open>main\<close>\<close>

text \<open>
  \<^verbatim>\<open>argv[0]\<close> is \<open>prog\<close> and the remaining arguments are \<open>args\<close>, so \<^verbatim>\<open>argc\<close> is
  \<open>1 + length args\<close>.
\<close>

definition usage :: "string \<Rightarrow> string" where
  "usage prog = ''Usage: '' @ prog @ '' <domain>'' @ newline"

definition output_path :: "string \<Rightarrow> string" where
  "output_path domain = snprintf (MAX_DOMAIN_LEN + 20) (domain @ ''_identities.txt'')"

definition saved_message :: "string \<Rightarrow> string" where
  "saved_message output_file = ''Output saved to '' @ output_file @ newline"

definition main :: "env \<Rightarrow> string \<Rightarrow> string list \<Rightarrow> outcome" where
  "main e prog args =
     (if 1 + length args \<noteq> 2 then (EXIT_FAILURE, [Stderr (usage prog)])
      else
        let domain = args ! 0;
            output_file = output_path domain
        in
        case validate_domain e domain of
          Inl out \<Rightarrow> out
        | Inr _ \<Rightarrow>
        (case check_connectivity e of
          Inl out \<Rightarrow> out
        | Inr t1 \<Rightarrow>
        (case check_output_dir e output_file of
          Inl out \<Rightarrow> prepend t1 out
        | Inr t2 \<Rightarrow>
        (case run_query e domain of
          Inl out \<Rightarrow> prepend (t1 @ t2) out
        | Inr (res, t3) \<Rightarrow>
            (let raw = collect_raw res;
                 t4 = [DbFinish];
                 (wild, norm) = process_identities raw
             in
             case write_output e output_file wild norm of
               Inl out \<Rightarrow> prepend (t1 @ t2 @ t3 @ t4) out
             | Inr t5 \<Rightarrow>
                 (0, t1 @ t2 @ t3 @ t4 @ t5 @ [Stdout (saved_message output_file)]))))))"

subsection \<open>Auxiliary notions for the proofs\<close>

text \<open>The body of the inner loop of \<^verbatim>\<open>bubble_sort\<close>: exchange the two entries when out of order.\<close>

definition exchange :: "string list \<Rightarrow> nat \<Rightarrow> nat \<Rightarrow> string list" where
  "exchange arr i j =
     (if strcmp (arr ! i) (arr ! j) > 0 then (arr[i := arr ! j])[j := arr ! i] else arr)"

text \<open>
  The invariant of the outer loop: each of the first \<open>i\<close> entries is at most every later
  entry below \<open>n\<close>.
\<close>

definition prefix_least :: "string list \<Rightarrow> int \<Rightarrow> nat \<Rightarrow> bool" where
  "prefix_least arr n i =
     (\<forall>a b. a < i \<and> a < b \<and> int b < n \<longrightarrow> strcmp_le (arr ! a) (arr ! b))"

definition line :: "string \<Rightarrow> string" where
  "line s = s @ newline"

text \<open>The identities whose write to the file succeeds, \<open>k\<close> being the count of the first.\<close>

fun received :: "env \<Rightarrow> nat \<Rightarrow> string list \<Rightarrow> string list" where
  "received e k [] = []"
| "received e k (s # ss) = (if out_write_ok e k then [s] else []) @ received e (Suc k) ss"

text \<open>
  An environment in which every step succeeds and the query returns no rows, at local
  time 2024-01-01 00:00:00.
\<close>

definition env_ok :: env where
  "env_ok = \<lparr> local_time = \<lparr> tm_year = 124, tm_mon = 0, tm_mday = 1,
                              tm_hour = 0, tm_min = 0, tm_sec = 0 \<rparr>,
              log_opens = True, log_write_ok = True, regcomp_ok = True,
              probe_error = None, dir_writable = (\<lambda>_. True), connect_error = None,
              query_result = Inr [], out_opens = True, out_write_ok = (\<lambda>_. True) \<rparr>"

text \<open>
  The outcome of a run that \<^verbatim>\<open>fatal_error\<close> ends after the events \<open>pre\<close>: exit status
  \<^verbatim>\<open>EXIT_FAILURE\<close>, the entry on standard error, and the entry in the log when the log opens
  and the write to it succeeds.
\<close>

definition fatal_outcome :: "env \<Rightarrow> event list \<Rightarrow> string \<Rightarrow> outcome" where
  "fatal_outcome e pre msg =
     (EXIT_FAILURE,
      pre @ [Stderr (error_entry (timestamp e) msg)] @
      (if log_opens e \<and> log_write_ok e
       then [LogAppend LOG_FILE (error_entry (timestamp e) msg)] else []))"

text \<open>The trace of a run in which every step succeeds, for the output file \<open>f\<close>.\<close>

definition success_trace ::
  "env \<Rightarrow> string \<Rightarrow> string \<Rightarrow> string list \<Rightarrow> string list \<Rightarrow> event list" where
  "success_trace e d f wild norm =
     [DbConnect conninfo, DbFinish, DbConnect conninfo, DbQuery sql [d], DbFinish,
      FileCreate f] @
     print_loop e f 0 wild @ print_loop e f (length wild) norm @
     [FileClose f, Stdout (saved_message f)]"




section \<open>Properties\<close>

subsection \<open>Byte-wise comparison\<close>

lemma byte_nonneg: "0 \<le> byte c"
  by (simp add: byte_def)

lemma byte_eq_iff: "byte a = byte b \<longleftrightarrow> a = b"
  by (simp add: byte_def)

lemma byte_NUL: "byte NUL = 0"
  by (simp add: byte_def NUL_def)

lemma byte_zero_iff: "byte c = 0 \<longleftrightarrow> c = NUL"
  using byte_eq_iff [of c NUL] by (simp add: byte_NUL)

lemma strcmp_refl: "strcmp a a = 0"
  by (induction a) auto

lemma strcmp_flip: "strcmp b a = - strcmp a b"
  by (induction a b rule: strcmp.induct) auto

lemma strcmp_trans: "strcmp a b \<le> 0 \<Longrightarrow> strcmp b c \<le> 0 \<Longrightarrow> strcmp a c \<le> 0"
proof (induction a b arbitrary: c rule: strcmp.induct)
  case 1
  then show ?case by simp
next
  case (2 y ys)
  then show ?case
    using byte_nonneg by (cases c) auto
next
  case (3 x xs)
  then show ?case
    using byte_nonneg [of x] byte_zero_iff [of x]
    by (cases c) (auto split: if_splits)
next
  case (4 x xs y ys)
  then show ?case
    using byte_nonneg [of x] byte_zero_iff [of x] byte_nonneg [of y] byte_zero_iff [of y]
      byte_eq_iff
    by (cases c) (auto split: if_splits)
qed

text \<open>On C strings \<^verbatim>\<open>strcmp\<close> returns 0 exactly for equal strings.\<close>

lemma strcmp_eq_iff: "cstring a \<Longrightarrow> cstring b \<Longrightarrow> strcmp a b = 0 \<longleftrightarrow> a = b"
  by (induction a b rule: strcmp.induct) (auto simp: cstring_def byte_zero_iff byte_eq_iff)

lemma strcmp_le_trans: "strcmp_le a b \<Longrightarrow> strcmp_le b c \<Longrightarrow> strcmp_le a c"
  unfolding strcmp_le_def by (rule strcmp_trans)

lemma strcmp_gt_le: "strcmp a b > 0 \<Longrightarrow> strcmp_le b a"
  using strcmp_flip [of b a] by (simp add: strcmp_le_def)

lemma strcmp_not_gt_le: "\<not> strcmp a b > 0 \<Longrightarrow> strcmp_le a b"
  by (simp add: strcmp_le_def)

lemma strcmp_le_refl: "strcmp_le a a"
  by (simp add: strcmp_le_def strcmp_refl)

text \<open>The test of the partition step holds exactly for the strings that start with \<^verbatim>\<open>*.\<close>\<close>

lemma strncmp_wildcard: "strncmp s ''*.'' 2 = 0 \<longleftrightarrow> has_wildcard_prefix s"
proof (cases s)
  case Nil
  then show ?thesis
    by (simp add: numeral_2_eq_2 byte_def has_wildcard_prefix_def)
next
  case (Cons a as)
  then show ?thesis
    by (cases as)
       (auto simp add: numeral_2_eq_2 byte_eq_iff byte_zero_iff NUL_def has_wildcard_prefix_def)
qed

subsection \<open>Uniqueness\<close>

lemma dup_scan_iff:
  "cstring r \<Longrightarrow> \<forall>u\<in>set us. cstring u \<Longrightarrow> dup_scan r us \<longleftrightarrow> r \<in> set us"
  by (induction us) (auto simp: strcmp_eq_iff)

lemma set_first_occurrences: "set (first_occurrences xs) = set xs"
  by (induction xs rule: first_occurrences.induct) auto

lemma distinct_first_occurrences: "distinct (first_occurrences xs)"
  by (induction xs rule: first_occurrences.induct) (auto simp: set_first_occurrences)

lemma uniqueness_loop_eq:
  "\<forall>s\<in>set raw. cstring s \<Longrightarrow> \<forall>s\<in>set unique. cstring s \<Longrightarrow>
   uniqueness_loop raw unique =
     unique @ first_occurrences (filter (\<lambda>x. x \<notin> set unique) raw)"
proof (induction raw arbitrary: unique)
  case Nil
  then show ?case by simp
next
  case (Cons r raw)
  have eq: "removeAll r (filter (\<lambda>x. x \<notin> set unique) raw)
          = filter (\<lambda>x. x \<notin> set (unique @ [r])) raw"
    by (induction raw) auto
  from Cons.prems have d: "dup_scan r unique \<longleftrightarrow> r \<in> set unique"
    by (simp add: dup_scan_iff)
  show ?case
  proof (cases "r \<in> set unique")
    case True
    with Cons d show ?thesis by simp
  next
    case False
    from Cons.prems have "\<forall>s\<in>set (unique @ [r]). cstring s" by simp
    with Cons have "uniqueness_loop raw (unique @ [r])
       = (unique @ [r]) @ first_occurrences (filter (\<lambda>x. x \<notin> set (unique @ [r])) raw)"
      by simp
    with False d eq show ?thesis by simp
  qed
qed

lemma first_index_removeAll:
  "a \<noteq> x \<Longrightarrow> b \<noteq> x \<Longrightarrow>
   first_index a (removeAll x xs) < first_index b (removeAll x xs)
     \<longleftrightarrow> first_index a xs < first_index b xs"
  by (induction xs) (auto simp: first_index_def)

lemma first_occurrences_order:
  "sorted_wrt (\<lambda>a b. first_index a xs < first_index b xs) (first_occurrences xs)"
proof (induction xs rule: first_occurrences.induct)
  case 1
  then show ?case by simp
next
  case (2 x xs)
  let ?ys = "first_occurrences (removeAll x xs)"
  have ne: "\<forall>b\<in>set ?ys. b \<noteq> x"
    by (simp add: set_first_occurrences)
  have step: "first_index a (x # xs) < first_index b (x # xs)"
    if "a \<in> set ?ys" "b \<in> set ?ys"
       "first_index a (removeAll x xs) < first_index b (removeAll x xs)" for a b
  proof -
    from that ne have "a \<noteq> x" "b \<noteq> x" by auto
    with that(3) have "first_index a xs < first_index b xs"
      by (simp add: first_index_removeAll)
    with \<open>a \<noteq> x\<close> \<open>b \<noteq> x\<close> show ?thesis
      by (simp add: first_index_def)
  qed
  have tl: "sorted_wrt (\<lambda>a b. first_index a (x # xs) < first_index b (x # xs)) ?ys"
    by (rule sorted_wrt_mono_rel [OF step "2"])
  have hd: "\<forall>b\<in>set ?ys. first_index x (x # xs) < first_index b (x # xs)"
    using ne by (auto simp: first_index_def)
  from tl hd show ?case by simp
qed

lemma count_list_distinct: "distinct xs \<Longrightarrow> x \<in> set xs \<Longrightarrow> count_list xs x = 1"
  by (induction xs) auto

text \<open>
  C1. For every raw sequence of C strings, possibly with duplicates, the uniqueness step
  returns each distinct value of the input exactly once, in the order of the first
  occurrences in the input, and the length of the result is the number of distinct input
  values.
\<close>

theorem uniqueness_first_occurrences:
  assumes "\<forall>s\<in>set raw. cstring s"
  shows "uniqueness raw = first_occurrences raw
       \<and> distinct (uniqueness raw)
       \<and> set (uniqueness raw) = set raw
       \<and> (\<forall>v\<in>set raw. count_list (uniqueness raw) v = 1)
       \<and> sorted_wrt (\<lambda>a b. first_index a raw < first_index b raw) (uniqueness raw)
       \<and> length (uniqueness raw) = card (set raw)"
proof -
  from assms have eq: "uniqueness raw = first_occurrences raw"
    by (simp add: uniqueness_def uniqueness_loop_eq)
  have d: "distinct (first_occurrences raw)"
    by (rule distinct_first_occurrences)
  have s: "set (first_occurrences raw) = set raw"
    by (rule set_first_occurrences)
  from d s have c: "\<forall>v\<in>set raw. count_list (first_occurrences raw) v = 1"
    by (simp add: count_list_distinct)
  from d s have l: "length (first_occurrences raw) = card (set raw)"
    by (metis distinct_card)
  from eq d s c l first_occurrences_order [of raw] show ?thesis
    by simp
qed

theorem uniqueness_first_occurrences_witness:
  "cstring ''b'' \<and> cstring ''a'' \<and> cstring ''c''
   \<and> uniqueness [''b'', ''a'', ''b'', ''c'', ''a''] = [''b'', ''a'', ''c'']
   \<and> distinct (uniqueness [''b'', ''a'', ''b'', ''c'', ''a''])
   \<and> length (uniqueness [''b'', ''a'', ''b'', ''c'', ''a''])
       = card (set [''b'', ''a'', ''b'', ''c'', ''a''])"
proof -
  have h: "\<forall>s\<in>set [''b'', ''a'', ''b'', ''c'', ''a'']. cstring s"
    by (simp add: cstring_def NUL_def)
  have e: "uniqueness [''b'', ''a'', ''b'', ''c'', ''a''] = [''b'', ''a'', ''c'']"
    by code_simp
  from uniqueness_first_occurrences [OF h] h e show ?thesis
    by simp
qed

subsection \<open>Partition\<close>

lemma partition_loop_eq:
  "partition_loop unique wild norm =
     (wild @ filter has_wildcard_prefix unique,
      norm @ filter (\<lambda>s. \<not> has_wildcard_prefix s) unique)"
  by (induction unique arbitrary: wild norm) (simp_all add: strncmp_wildcard)

text \<open>
  C2. The partition step puts exactly the identities whose first two characters are
  \<^verbatim>\<open>*.\<close> into the wildcard partition and all others into the normal partition, each in
  the relative order of the deduplicated sequence; the two partitions together hold the
  elements of the deduplicated sequence.
\<close>

theorem partition_identities_correct:
  "partition_identities unique =
     (filter has_wildcard_prefix unique, filter (\<lambda>s. \<not> has_wildcard_prefix s) unique)
   \<and> set (fst (partition_identities unique)) \<union> set (snd (partition_identities unique))
       = set unique
   \<and> set (fst (partition_identities unique)) \<inter> set (snd (partition_identities unique)) = {}
   \<and> mset (fst (partition_identities unique)) + mset (snd (partition_identities unique))
       = mset unique"
  by (auto simp: partition_identities_def partition_loop_eq)

theorem partition_identities_correct_witness:
  "partition_identities [''*.b.com'', ''a.com'', ''*'', ''*.a.com'', ''.*b'', ''b.com'']
     = ([''*.b.com'', ''*.a.com''], [''a.com'', ''*'', ''.*b'', ''b.com''])"
  using partition_identities_correct
    [of "[''*.b.com'', ''a.com'', ''*'', ''*.a.com'', ''.*b'', ''b.com'']"]
  by (simp add: has_wildcard_prefix_def)

subsection \<open>Collecting the rows\<close>

lemma column_values_Cons:
  "column_values (None # res) = column_values res"
  "column_values (Some [] # res) = column_values res"
  "v \<noteq> [] \<Longrightarrow> column_values (Some v # res) = v # column_values res"
  by (simp_all add: column_values_def)

lemma collect_loop_eq:
  "length raw \<le> MAX_IDENTITIES \<Longrightarrow>
   collect_loop res raw = take MAX_IDENTITIES (raw @ column_values res)"
proof (induction res arbitrary: raw)
  case Nil
  then show ?case by (simp add: column_values_def)
next
  case (Cons val res)
  show ?case
  proof (cases "length raw < MAX_IDENTITIES")
    case True
    show ?thesis
    proof (cases val)
      case None
      with True Cons show ?thesis
        by (simp add: column_values_Cons del: take_append)
    next
      case (Some v)
      show ?thesis
      proof (cases "v = []")
        case True
        with \<open>length raw < MAX_IDENTITIES\<close> Some Cons show ?thesis
          by (simp add: column_values_Cons del: take_append)
      next
        case False
        from True have "length (raw @ [v]) \<le> MAX_IDENTITIES" by simp
        then have "collect_loop res (raw @ [v])
                   = take MAX_IDENTITIES ((raw @ [v]) @ column_values res)"
          by (rule Cons.IH)
        with True Some False show ?thesis
          by (simp add: column_values_Cons del: take_append)
      qed
    qed
  next
    case False
    with Cons.prems show ?thesis by simp
  qed
qed

text \<open>
  C8. The collection step stores exactly the non-null, non-empty values of the column,
  in row order, up to \<^verbatim>\<open>MAX_IDENTITIES\<close> = 1,000,000 entries; the values beyond that count
  are dropped, and the step has no error result.
\<close>

theorem collect_raw_correct:
  "collect_raw res = take MAX_IDENTITIES (column_values res)
   \<and> length (collect_raw res) \<le> 1000000
   \<and> (length (column_values res) \<le> 1000000 \<longrightarrow> collect_raw res = column_values res)
   \<and> column_values res = map the (filter (\<lambda>val. val \<noteq> None \<and> val \<noteq> Some []) res)"
proof -
  have "collect_raw res = take MAX_IDENTITIES (column_values res)"
    by (simp add: collect_raw_def collect_loop_eq)
  then show ?thesis
    by (simp add: MAX_IDENTITIES_def column_values_def)
qed

theorem collect_raw_correct_witness:
  "length (column_values [Some ''b.com'', None, Some [], Some ''a.com'', Some ''b.com''])
     \<le> 1000000
   \<and> collect_raw [Some ''b.com'', None, Some [], Some ''a.com'', Some ''b.com'']
     = [''b.com'', ''a.com'', ''b.com'']"
  using collect_raw_correct [of "[Some ''b.com'', None, Some [], Some ''a.com'', Some ''b.com'']"]
  by (simp add: column_values_def MAX_IDENTITIES_def)

subsection \<open>The inner loop of \<^verbatim>\<open>bubble_sort\<close>\<close>

lemma bubble_inner_unfold:
  "bubble_inner arr n i j =
     (if int j < n then bubble_inner (exchange arr i j) n i (j + 1) else arr)"
  by (subst bubble_inner.simps) (simp add: exchange_def)

lemma bubble_inner_induct [consumes 0, case_names step]:
  assumes "\<And>arr n i j. (int j < n \<Longrightarrow> P (exchange arr i j) n i (j + 1)) \<Longrightarrow> P arr n i j"
  shows "P arr n i j"
proof (induction arr n i j rule: bubble_inner.induct)
  case (1 arr n i j)
  show ?case
    by (rule assms) (use 1 in \<open>simp add: exchange_def\<close>)
qed

lemma length_exchange: "length (exchange arr i j) = length arr"
  by (simp add: exchange_def)

lemma exchange_other: "k \<noteq> i \<Longrightarrow> k \<noteq> j \<Longrightarrow> exchange arr i j ! k = arr ! k"
  by (simp add: exchange_def)

lemma mset_exchange:
  "i < length arr \<Longrightarrow> j < length arr \<Longrightarrow> mset (exchange arr i j) = mset arr"
  using mset_swap [of j arr i] by (simp add: exchange_def)

lemma exchange_i:
  "i < length arr \<Longrightarrow> j < length arr \<Longrightarrow> i \<noteq> j \<Longrightarrow>
   exchange arr i j ! i = (if strcmp (arr ! i) (arr ! j) > 0 then arr ! j else arr ! i)"
  by (simp add: exchange_def)

lemma exchange_j:
  "i < length arr \<Longrightarrow> j < length arr \<Longrightarrow> i \<noteq> j \<Longrightarrow>
   exchange arr i j ! j = (if strcmp (arr ! i) (arr ! j) > 0 then arr ! i else arr ! j)"
  by (simp add: exchange_def)

lemma length_bubble_inner: "length (bubble_inner arr n i j) = length arr"
proof (induction arr n i j rule: bubble_inner_induct)
  case (step arr n i j)
  then show ?case
    by (subst bubble_inner_unfold) (simp add: length_exchange)
qed

text \<open>The loop leaves alone every entry other than \<open>i\<close> that is before \<open>j\<close> or not below \<open>n\<close>.\<close>

lemma bubble_inner_other:
  "i < j \<Longrightarrow> k \<noteq> i \<Longrightarrow> k < j \<or> n \<le> int k \<Longrightarrow> bubble_inner arr n i j ! k = arr ! k"
proof (induction arr n i j rule: bubble_inner_induct)
  case (step arr n i j)
  show ?case
  proof (cases "int j < n")
    case True
    with step.prems have "k \<noteq> j" by auto
    from True step have "bubble_inner (exchange arr i j) n i (j + 1) ! k = exchange arr i j ! k"
      by auto
    with True \<open>k \<noteq> j\<close> step.prems show ?thesis
      by (subst bubble_inner_unfold) (simp add: exchange_other)
  next
    case False
    then show ?thesis by (subst bubble_inner_unfold) simp
  qed
qed

lemma mset_bubble_inner:
  "i < j \<Longrightarrow> n \<le> int (length arr) \<Longrightarrow> mset (bubble_inner arr n i j) = mset arr"
proof (induction arr n i j rule: bubble_inner_induct)
  case (step arr n i j)
  show ?case
  proof (cases "int j < n")
    case True
    with step.prems have b: "i < length arr" "j < length arr" by auto
    from True step
    have "mset (bubble_inner (exchange arr i j) n i (j + 1)) = mset (exchange arr i j)"
      by (simp add: length_exchange)
    with True b show ?thesis
      by (subst bubble_inner_unfold) (simp add: mset_exchange)
  next
    case False
    then show ?thesis by (subst bubble_inner_unfold) simp
  qed
qed

text \<open>Every entry from \<open>i\<close> up to \<open>n\<close> of the result was such an entry before.\<close>

lemma bubble_inner_from:
  "i < j \<Longrightarrow> n \<le> int (length arr) \<Longrightarrow> i \<le> b \<Longrightarrow> int b < n \<Longrightarrow>
   \<exists>k. i \<le> k \<and> int k < n \<and> bubble_inner arr n i j ! b = arr ! k"
proof (induction arr n i j arbitrary: b rule: bubble_inner_induct)
  case (step arr n i j)
  show ?case
  proof (cases "int j < n")
    case True
    with step.prems have len: "i < length arr" "j < length arr" "i \<noteq> j" by auto
    from True step.prems step.IH [of b]
    obtain k where k: "i \<le> k" "int k < n"
      "bubble_inner (exchange arr i j) n i (j + 1) ! b = exchange arr i j ! k"
      by (auto simp: length_exchange)
    have "\<exists>k'. i \<le> k' \<and> int k' < n \<and> exchange arr i j ! k = arr ! k'"
    proof (cases "k = i \<or> k = j")
      case True
      with len have "exchange arr i j ! k = arr ! i \<or> exchange arr i j ! k = arr ! j"
        by (auto simp: exchange_i exchange_j)
      moreover have "i \<le> i \<and> int i < n" "i \<le> j \<and> int j < n"
        using \<open>int j < n\<close> step.prems(1) by auto
      ultimately show ?thesis by blast
    next
      case False
      with k show ?thesis by (auto simp: exchange_other)
    qed
    with k True show ?thesis
      by (subst bubble_inner_unfold) auto
  next
    case False
    with step.prems show ?thesis by (subst bubble_inner_unfold) auto
  qed
qed

text \<open>After the loop, entry \<open>i\<close> is at most every later entry below \<open>n\<close>.\<close>

lemma bubble_inner_least:
  "i < j \<Longrightarrow> n \<le> int (length arr) \<Longrightarrow>
   \<forall>k. i < k \<and> k < j \<longrightarrow> strcmp_le (arr ! i) (arr ! k) \<Longrightarrow>
   i < k \<Longrightarrow> int k < n \<Longrightarrow>
   strcmp_le (bubble_inner arr n i j ! i) (bubble_inner arr n i j ! k)"
proof (induction arr n i j rule: bubble_inner_induct)
  case (step arr n i j)
  show ?case
  proof (cases "int j < n")
    case True
    with step.prems have len: "i < length arr" "j < length arr" "i \<noteq> j" by auto
    let ?arr' = "exchange arr i j"
    have le_i: "strcmp_le (?arr' ! i) (arr ! i)"
      using len by (auto simp: exchange_i strcmp_gt_le strcmp_le_refl)
    have le_j: "strcmp_le (?arr' ! i) (?arr' ! j)"
      using len by (auto simp: exchange_i exchange_j strcmp_gt_le strcmp_not_gt_le)
    have inv: "\<forall>m. i < m \<and> m < j + 1 \<longrightarrow> strcmp_le (?arr' ! i) (?arr' ! m)"
    proof (intro allI impI)
      fix m assume m: "i < m \<and> m < j + 1"
      show "strcmp_le (?arr' ! i) (?arr' ! m)"
      proof (cases "m = j")
        case True
        with le_j show ?thesis by simp
      next
        case False
        with m have "m < j" "m \<noteq> i" by auto
        with step.prems(3) m have "strcmp_le (arr ! i) (arr ! m)" by auto
        with le_i have "strcmp_le (?arr' ! i) (arr ! m)" by (rule strcmp_le_trans)
        with \<open>m \<noteq> i\<close> False show ?thesis by (simp add: exchange_other)
      qed
    qed
    from True step.prems inv
    have "strcmp_le (bubble_inner ?arr' n i (j + 1) ! i) (bubble_inner ?arr' n i (j + 1) ! k)"
      by (intro step.IH) (auto simp: length_exchange)
    with True show ?thesis
      by (subst (1 2) bubble_inner_unfold) simp
  next
    case False
    with step.prems show ?thesis
      by (subst (1 2) bubble_inner_unfold) auto
  qed
qed

subsection \<open>The outer loop of \<^verbatim>\<open>bubble_sort\<close>\<close>

lemma bubble_outer_unfold:
  "bubble_outer arr n i =
     (if int i < n - 1 then bubble_outer (bubble_inner arr n i (i + 1)) n (i + 1) else arr)"
  by (subst bubble_outer.simps) simp

lemma length_bubble_outer: "length (bubble_outer arr n i) = length arr"
proof (induction arr n i rule: bubble_outer.induct)
  case (1 arr n i)
  then show ?case
    by (subst bubble_outer_unfold) (simp add: length_bubble_inner)
qed

lemma mset_bubble_outer:
  "n \<le> int (length arr) \<Longrightarrow> mset (bubble_outer arr n i) = mset arr"
proof (induction arr n i rule: bubble_outer.induct)
  case (1 arr n i)
  then show ?case
    by (subst bubble_outer_unfold) (simp add: length_bubble_inner mset_bubble_inner)
qed

lemma bubble_outer_beyond:
  "n \<le> int k \<Longrightarrow> bubble_outer arr n i ! k = arr ! k"
proof (induction arr n i rule: bubble_outer.induct)
  case (1 arr n i)
  show ?case
  proof (cases "int i < n - 1")
    case True
    with 1 have "bubble_outer (bubble_inner arr n i (i + 1)) n (i + 1) ! k
                 = bubble_inner arr n i (i + 1) ! k"
      by simp
    also from True 1(2) have "\<dots> = arr ! k"
      by (intro bubble_inner_other) auto
    finally show ?thesis using True
      by (subst bubble_outer_unfold) simp
  next
    case False
    then show ?thesis by (subst bubble_outer_unfold) simp
  qed
qed

lemma prefix_least_step:
  assumes n: "n \<le> int (length arr)" and i: "int i < n - 1" and inv: "prefix_least arr n i"
  shows "prefix_least (bubble_inner arr n i (i + 1)) n (i + 1)"
  unfolding prefix_least_def
proof (intro allI impI)
  let ?r = "bubble_inner arr n i (i + 1)"
  fix a b assume ab: "a < i + 1 \<and> a < b \<and> int b < n"
  show "strcmp_le (?r ! a) (?r ! b)"
  proof (cases "a = i")
    case True
    with ab n show ?thesis
      by (auto intro!: bubble_inner_least)
  next
    case False
    with ab have a: "a < i" by simp
    then have ra: "?r ! a = arr ! a"
      by (intro bubble_inner_other) auto
    show ?thesis
    proof (cases "b < i")
      case True
      then have "?r ! b = arr ! b"
        by (intro bubble_inner_other) auto
      with ra inv a ab show ?thesis
        by (auto simp: prefix_least_def)
    next
      case False
      with n ab bubble_inner_from [of i "i + 1" n arr b]
      obtain k where k: "i \<le> k" "int k < n" "?r ! b = arr ! k"
        by auto
      with a inv have "strcmp_le (arr ! a) (arr ! k)"
        by (auto simp: prefix_least_def)
      with ra k show ?thesis by simp
    qed
  qed
qed

lemma bubble_outer_sorted:
  "n \<le> int (length arr) \<Longrightarrow> prefix_least arr n i \<Longrightarrow> a < b \<Longrightarrow> int b < n \<Longrightarrow>
   strcmp_le (bubble_outer arr n i ! a) (bubble_outer arr n i ! b)"
proof (induction arr n i rule: bubble_outer.induct)
  case (1 arr n i)
  show ?case
  proof (cases "int i < n - 1")
    case True
    let ?r = "bubble_inner arr n i (i + 1)"
    from True 1(2,3) have "prefix_least ?r n (i + 1)"
      by (intro prefix_least_step)
    with True 1 have "strcmp_le (bubble_outer ?r n (i + 1) ! a) (bubble_outer ?r n (i + 1) ! b)"
      by (simp add: length_bubble_inner)
    with True show ?thesis
      by (subst (1 2) bubble_outer_unfold) simp
  next
    case False
    with 1(4,5) have "a < i" by auto
    with 1(3,4,5) have "strcmp_le (arr ! a) (arr ! b)"
      by (auto simp: prefix_least_def)
    with False show ?thesis
      by (subst (1 2) bubble_outer_unfold) simp
  qed
qed

subsection \<open>\<^verbatim>\<open>bubble_sort\<close> sorts\<close>

lemma length_bubble_sort: "length (bubble_sort arr n) = length arr"
  by (simp add: bubble_sort_def length_bubble_outer)

lemma mset_bubble_sort: "n \<le> int (length arr) \<Longrightarrow> mset (bubble_sort arr n) = mset arr"
  by (simp add: bubble_sort_def mset_bubble_outer)

lemma drop_bubble_sort: "drop (nat n) (bubble_sort arr n) = drop (nat n) arr"
  by (rule nth_equalityI) (simp_all add: bubble_sort_def length_bubble_outer bubble_outer_beyond)

lemma sorted_bubble_sort:
  assumes "n \<le> int (length arr)"
  shows "sorted_wrt strcmp_le (take (nat n) (bubble_sort arr n))"
proof -
  have "strcmp_le (bubble_sort arr n ! a) (bubble_sort arr n ! b)" if "a < b" "int b < n" for a b
    unfolding bubble_sort_def using assms _ that
    by (rule bubble_outer_sorted) (simp add: prefix_least_def)
  then show ?thesis
    by (auto simp: sorted_wrt_iff_nth_less length_bubble_sort)
qed

lemma mset_take_bubble_sort:
  assumes "n \<le> int (length arr)"
  shows "mset (take (nat n) (bubble_sort arr n)) = mset (take (nat n) arr)"
proof -
  have "mset (take (nat n) (bubble_sort arr n)) + mset (drop (nat n) (bubble_sort arr n))
        = mset (take (nat n) arr) + mset (drop (nat n) arr)"
    using mset_bubble_sort [OF assms] by (simp add: union_code del: mset_append flip: mset_append)
  then show ?thesis by (simp add: drop_bubble_sort)
qed

lemma bubble_sort_whole:
  "mset (bubble_sort arr (int (length arr))) = mset arr
   \<and> sorted_wrt strcmp_le (bubble_sort arr (int (length arr)))"
  using mset_bubble_sort [of "int (length arr)" arr] sorted_bubble_sort [of "int (length arr)" arr]
  by (simp add: length_bubble_sort)

text \<open>
  C3. For every array of strings and every count \<open>n\<close> of its entries, \<^verbatim>\<open>bubble_sort\<close>
  returns the first \<open>n\<close> strings permuted into non-decreasing byte-wise order (the order of
  \<^verbatim>\<open>strcmp\<close>) and leaves the rest of the array alone. Hence each partition of \<^verbatim>\<open>main\<close>, sorted
  with its own count, is sorted ascending and holds the same multiset of elements as before.
\<close>

theorem bubble_sort_sorted_permutation:
  assumes "n \<le> int (length arr)"
  shows "mset (take (nat n) (bubble_sort arr n)) = mset (take (nat n) arr)
       \<and> sorted_wrt strcmp_le (take (nat n) (bubble_sort arr n))
       \<and> drop (nat n) (bubble_sort arr n) = drop (nat n) arr
       \<and> length (bubble_sort arr n) = length arr
       \<and> mset (fst (process_identities raw)) = mset (fst (partition_identities (uniqueness raw)))
       \<and> mset (snd (process_identities raw)) = mset (snd (partition_identities (uniqueness raw)))
       \<and> sorted_wrt strcmp_le (fst (process_identities raw))
       \<and> sorted_wrt strcmp_le (snd (process_identities raw))"
  using assms
  by (simp add: mset_take_bubble_sort sorted_bubble_sort drop_bubble_sort length_bubble_sort
      process_identities_def bubble_sort_whole split: prod.splits)

theorem bubble_sort_sorted_permutation_witness:
  "(3::int) \<le> int (length [''b.com'', ''a.com'', ''ab.com'', ''aa.com''])
   \<and> bubble_sort [''b.com'', ''a.com'', ''ab.com'', ''aa.com''] 3
       = [''a.com'', ''ab.com'', ''b.com'', ''aa.com'']
   \<and> sorted_wrt strcmp_le (take (nat 3) (bubble_sort [''b.com'', ''a.com'', ''ab.com'', ''aa.com''] 3))
   \<and> mset (take (nat 3) (bubble_sort [''b.com'', ''a.com'', ''ab.com'', ''aa.com''] 3))
       = mset (take (nat 3) [''b.com'', ''a.com'', ''ab.com'', ''aa.com''])"
proof -
  have h: "(3::int) \<le> int (length [''b.com'', ''a.com'', ''ab.com'', ''aa.com''])"
    by simp
  have e: "bubble_sort [''b.com'', ''a.com'', ''ab.com'', ''aa.com''] 3
           = [''a.com'', ''ab.com'', ''b.com'', ''aa.com'']"
    by code_simp
  from bubble_sort_sorted_permutation [OF h] h e show ?thesis
    by simp
qed

subsection \<open>The timestamp\<close>



lemma dec_1: "n < 10 \<Longrightarrow> dec n = [digit n]"
  by (subst dec.simps) simp

lemma dec_2: "10 \<le> n \<Longrightarrow> n < 100 \<Longrightarrow> dec n = [digit (n div 10), digit (n mod 10)]"
  by (subst dec.simps) (simp add: dec_1)

lemma dec_3:
  "100 \<le> n \<Longrightarrow> n < 1000 \<Longrightarrow>
   dec n = [digit (n div 100), digit (n div 10 mod 10), digit (n mod 10)]"
  by (subst dec.simps) (simp add: dec_2 flip: div_mult2_eq)

lemma dec_4:
  "1000 \<le> n \<Longrightarrow> n < 10000 \<Longrightarrow>
   dec n = [digit (n div 1000), digit (n div 100 mod 10), digit (n div 10 mod 10),
            digit (n mod 10)]"
  by (subst dec.simps) (simp add: dec_3 flip: div_mult2_eq)



lemma timestamp_updates:
  "timestamp (e\<lparr>log_opens := a\<rparr>) = timestamp e"
  "timestamp (e\<lparr>log_write_ok := a\<rparr>) = timestamp e"
  "timestamp (e\<lparr>regcomp_ok := a\<rparr>) = timestamp e"
  "timestamp (e\<lparr>probe_error := b\<rparr>) = timestamp e"
  "timestamp (e\<lparr>connect_error := b\<rparr>) = timestamp e"
  "timestamp (e\<lparr>query_result := c\<rparr>) = timestamp e"
  "timestamp (e\<lparr>out_opens := a\<rparr>) = timestamp e"
  "timestamp (e\<lparr>out_write_ok := w\<rparr>) = timestamp e"
  by (simp_all add: timestamp_def)

subsection \<open>Traces, validation and the cases of \<^verbatim>\<open>main\<close>\<close>

lemma stdout_text_append: "stdout_text (xs @ ys) = stdout_text xs @ stdout_text ys"
  by (induction xs rule: stdout_text.induct) auto

lemma file_text_append: "file_text f (xs @ ys) = file_text f xs @ file_text f ys"
  by (induction f xs rule: file_text.induct) auto

lemma stderr_text_append: "stderr_text (xs @ ys) = stderr_text xs @ stderr_text ys"
  by (induction xs rule: stderr_text.induct) auto

lemma stdout_print_loop: "stdout_text (print_loop e f k ss) = map line ss"
  by (induction ss arbitrary: k) (auto simp: line_def stdout_text_append)

lemma file_print_loop: "file_text f (print_loop e f k ss) = map line (received e k ss)"
  by (induction ss arbitrary: k) (auto simp: line_def file_text_append)

lemma received_append:
  "received e k (xs @ ys) = received e k xs @ received e (k + length xs) ys"
  by (induction xs arbitrary: k) auto

lemma received_all: "\<forall>k. out_write_ok e k \<Longrightarrow> received e k ss = ss"
  by (induction ss arbitrary: k) auto

lemma in_bracket_dangerous: "c \<in> set dangerous_chars \<Longrightarrow> \<not> in_bracket c"
  by (auto simp: dangerous_chars_def in_bracket_def quote_def byte_def)

lemma strpbrk_None_iff: "strpbrk s accept = None \<longleftrightarrow> set s \<inter> set accept = {}"
  by (auto simp: strpbrk_def find_None_iff)

lemma charset_no_dangerous: "charset_rule d \<Longrightarrow> set d \<inter> set dangerous_chars = {}"
  by (auto simp: charset_rule_def dest: in_bracket_dangerous)

lemma regexec_domain_iff: "regexec_domain d \<longleftrightarrow> charset_rule d"
  by (simp add: regexec_domain_def charset_rule_def list_all_iff)

lemma length_rule_iff: "length_rule d \<longleftrightarrow> \<not> (length d = 0 \<or> length d > 255)"
  by (cases d) (auto simp: length_rule_def)

lemma validate_domain_Inr_iff:
  "validate_domain e d = Inr r \<longleftrightarrow> length_rule d \<and> charset_rule d \<and> regcomp_ok e \<and> r = 1"
  by (auto simp: validate_domain_def Let_def length_rule_iff regexec_domain_iff
      strpbrk_None_iff charset_no_dangerous split: if_splits)

lemma validate_domain_Inl:
  "validate_domain e d = Inl out \<Longrightarrow> \<exists>msg. out = fatal_error e msg"
  by (auto simp: validate_domain_def Let_def split: if_splits)

lemma slash_not_in_bracket: "\<not> in_bracket (CHR ''/'')"
  by (simp add: in_bracket_def byte_def)

lemma strrchr_None_iff: "strrchr s c = None \<longleftrightarrow> c \<notin> set s"
  by (induction s) (auto split: option.splits)

lemma output_path_valid:
  assumes "length_rule d"
  shows "output_path d = d @ ''_identities.txt''"
proof -
  have "length (d @ ''_identities.txt'') = length d + 15"
    by simp
  with assms have "length (d @ ''_identities.txt'') \<le> MAX_DOMAIN_LEN + 20 - 1"
    unfolding length_rule_def MAX_DOMAIN_LEN_def by linarith
  then show ?thesis
    unfolding output_path_def snprintf_def by (rule take_all)
qed

lemma output_path_no_slash:
  "length_rule d \<Longrightarrow> charset_rule d \<Longrightarrow> CHR ''/'' \<notin> set (output_path d)"
  using slash_not_in_bracket by (auto simp: output_path_valid charset_rule_def)



lemma fatal_error_outcome: "fatal_error e msg = fatal_outcome e [] msg"
  by (simp add: fatal_error_def fatal_outcome_def Let_def timestamp_def)

lemma prepend_fatal_outcome: "prepend p (fatal_outcome e pre msg) = fatal_outcome e (p @ pre) msg"
  by (simp add: prepend_def fatal_outcome_def)

lemma validate_domain_fails:
  assumes "\<not> (length_rule d \<and> charset_rule d \<and> regcomp_ok e)"
  shows "\<exists>msg. validate_domain e d = Inl (fatal_outcome e [] msg)"
proof (cases "validate_domain e d")
  case (Inl out)
  with validate_domain_Inl [of e d out] show ?thesis
    by (auto simp: fatal_error_outcome)
next
  case (Inr r)
  with assms show ?thesis by (simp add: validate_domain_Inr_iff)
qed

lemma validate_domain_passes:
  "length_rule d \<Longrightarrow> charset_rule d \<Longrightarrow> regcomp_ok e \<Longrightarrow> validate_domain e d = Inr 1"
  by (simp add: validate_domain_Inr_iff)

lemma check_output_dir_valid:
  "length_rule d \<Longrightarrow> charset_rule d \<Longrightarrow> check_output_dir e (output_path d) = Inr []"
  using output_path_no_slash [of d] strrchr_None_iff [of "output_path d" "CHR ''/''"]
  by (simp add: check_output_dir_def)







lemma main_validation_failure:
  "\<not> (length_rule d \<and> charset_rule d \<and> regcomp_ok e) \<Longrightarrow>
   \<exists>msg. main e prog [d] = fatal_outcome e [] msg"
  using validate_domain_fails [of d e]
  by (auto simp: main_def Let_def)

lemma main_probe_failure:
  "length_rule d \<Longrightarrow> charset_rule d \<Longrightarrow> regcomp_ok e \<Longrightarrow> probe_error e = Some m \<Longrightarrow>
   main e prog [d] = fatal_outcome e [DbConnect conninfo] m"
  by (simp add: main_def Let_def validate_domain_passes check_connectivity_def
      fatal_error_outcome prepend_fatal_outcome)

lemma main_connect_failure:
  "length_rule d \<Longrightarrow> charset_rule d \<Longrightarrow> regcomp_ok e \<Longrightarrow> probe_error e = None \<Longrightarrow>
   connect_error e = Some m \<Longrightarrow>
   main e prog [d] = fatal_outcome e [DbConnect conninfo, DbFinish, DbConnect conninfo] m"
  by (simp add: main_def Let_def validate_domain_passes check_connectivity_def
      check_output_dir_valid run_query_def fatal_error_outcome prepend_fatal_outcome)

lemma main_query_failure:
  "length_rule d \<Longrightarrow> charset_rule d \<Longrightarrow> regcomp_ok e \<Longrightarrow> probe_error e = None \<Longrightarrow>
   connect_error e = None \<Longrightarrow> query_result e = Inl m \<Longrightarrow>
   main e prog [d] =
     fatal_outcome e [DbConnect conninfo, DbFinish, DbConnect conninfo, DbQuery sql [d]] m"
  by (simp add: main_def Let_def validate_domain_passes check_connectivity_def
      check_output_dir_valid run_query_def fatal_error_outcome prepend_fatal_outcome)

lemma main_output_failure:
  "length_rule d \<Longrightarrow> charset_rule d \<Longrightarrow> regcomp_ok e \<Longrightarrow> probe_error e = None \<Longrightarrow>
   connect_error e = None \<Longrightarrow> query_result e = Inr res \<Longrightarrow> \<not> out_opens e \<Longrightarrow>
   main e prog [d] =
     fatal_outcome e
       [DbConnect conninfo, DbFinish, DbConnect conninfo, DbQuery sql [d], DbFinish]
       ''Cannot create output file''"
  by (simp add: main_def Let_def validate_domain_passes check_connectivity_def
      check_output_dir_valid run_query_def write_output_def fatal_error_outcome
      prepend_fatal_outcome split: prod.splits)

lemma main_success:
  "length_rule d \<Longrightarrow> charset_rule d \<Longrightarrow> regcomp_ok e \<Longrightarrow> probe_error e = None \<Longrightarrow>
   connect_error e = None \<Longrightarrow> query_result e = Inr res \<Longrightarrow> out_opens e \<Longrightarrow>
   main e prog [d] =
     (0, success_trace e d (output_path d)
           (fst (process_identities (collect_raw res)))
           (snd (process_identities (collect_raw res))))"
  by (simp add: main_def Let_def validate_domain_passes check_connectivity_def
      check_output_dir_valid run_query_def write_output_def
      success_trace_def split: prod.splits)

lemma process_identities_Nil: "process_identities [] = ([], [])"
  by code_simp

lemma collect_raw_Nil: "collect_raw [] = []"
  by (simp add: collect_raw_def)

text \<open>Every run with one argument either aborts through \<^verbatim>\<open>fatal_error\<close> or succeeds.\<close>

lemma main_cases:
  "(\<exists>pre msg. main e prog [d] = fatal_outcome e pre msg
       \<and> set pre \<subseteq> {DbConnect conninfo, DbFinish, DbQuery sql [d]}
       \<and> \<not> (length_rule d \<and> charset_rule d \<and> regcomp_ok e \<and> probe_error e = None
            \<and> connect_error e = None \<and> (\<exists>res. query_result e = Inr res) \<and> out_opens e))
   \<or> (length_rule d \<and> charset_rule d \<and> regcomp_ok e \<and> probe_error e = None
       \<and> connect_error e = None \<and> out_opens e
       \<and> (\<exists>res. query_result e = Inr res
             \<and> main e prog [d] =
                 (0, success_trace e d (output_path d)
                       (fst (process_identities (collect_raw res)))
                       (snd (process_identities (collect_raw res))))))"
proof (cases "length_rule d \<and> charset_rule d \<and> regcomp_ok e")
  case False
  with main_validation_failure [of d e prog] show ?thesis
    by auto
next
  case valid: True
  show ?thesis
  proof (cases "probe_error e")
    case (Some m)
    with valid main_probe_failure [of d e m prog] show ?thesis
      by (intro disjI1 exI [of _ "[DbConnect conninfo]"] exI [of _ m]) simp
  next
    case probe: None
    show ?thesis
    proof (cases "connect_error e")
      case (Some m)
      with valid probe main_connect_failure [of d e m prog] show ?thesis
        by (intro disjI1 exI [of _ "[DbConnect conninfo, DbFinish, DbConnect conninfo]"]
              exI [of _ m]) simp
    next
      case conn: None
      show ?thesis
      proof (cases "query_result e")
        case (Inl m)
        with valid probe conn main_query_failure [of d e m prog] show ?thesis
          by (intro disjI1
                exI [of _ "[DbConnect conninfo, DbFinish, DbConnect conninfo, DbQuery sql [d]]"]
                exI [of _ m]) simp
      next
        case (Inr res)
        show ?thesis
        proof (cases "out_opens e")
          case True
          with valid probe conn Inr main_success [of d e res prog] show ?thesis
            by simp
        next
          case False
          with valid probe conn Inr main_output_failure [of d e res prog] show ?thesis
            by (intro disjI1
                exI [of _ "[DbConnect conninfo, DbFinish, DbConnect conninfo,
                            DbQuery sql [d], DbFinish]"]
                exI [of _ "''Cannot create output file''"]) simp
        qed
      qed
    qed
  qed
qed

lemma stdout_success_trace:
  "stdout_text (success_trace e d f wild norm) = map line (wild @ norm) @ [saved_message f]"
  by (simp add: success_trace_def stdout_text_append stdout_print_loop)

lemma file_success_trace:
  "file_text f (success_trace e d f wild norm) = map line (received e 0 (wild @ norm))"
  by (simp add: success_trace_def file_text_append file_print_loop received_append)

lemma stderr_print_loop: "stderr_text (print_loop e f k ss) = []"
  by (induction ss arbitrary: k) (auto simp: stderr_text_append)

lemma stderr_success_trace: "stderr_text (success_trace e d f wild norm) = []"
  by (simp add: success_trace_def stderr_text_append stderr_print_loop)



subsection \<open>Concrete runs\<close>

lemma timestamp_env_ok: "timestamp env_ok = ''2024-01-01 00:00:00''"
  by (simp add: timestamp_def env_ok_def strftime_ts_def pad2_def dec_1 dec_4 digit_def)


lemma env_ok_simps:
  "log_opens env_ok" "log_write_ok env_ok" "regcomp_ok env_ok"
  "probe_error env_ok = None" "connect_error env_ok = None" "query_result env_ok = Inr []"
  "out_opens env_ok" "out_write_ok env_ok k"
  by (simp_all add: env_ok_def)


lemma length_rule_example:
  "length_rule ''com''" "length_rule ''a.com''" "length_rule ''a;b''" "length_rule ''a b''"
  "\<not> length_rule []"
  by (simp_all add: length_rule_def)

lemma charset_rule_example: "charset_rule ''com''" "charset_rule ''a.com''"
  by (simp_all add: charset_rule_def in_bracket_def byte_def)

lemma charset_rule_semicolon: "\<not> charset_rule ''a;b''" "\<not> charset_rule ''a b''"
  by (simp_all add: charset_rule_def in_bracket_def byte_def)



subsection \<open>The output writer\<close>




subsection \<open>The end-to-end example\<close>

text \<open>
  C4. For the raw rows \<^verbatim>\<open>*.b.com\<close>, \<^verbatim>\<open>a.com\<close>, \<^verbatim>\<open>a.com\<close>, \<^verbatim>\<open>*.a.com\<close>, \<^verbatim>\<open>b.com\<close> the pipeline
  (deduplicate, partition, sort, wildcards before normals) yields \<^verbatim>\<open>*.a.com\<close>, \<^verbatim>\<open>*.b.com\<close>,
  \<^verbatim>\<open>a.com\<close>, \<^verbatim>\<open>b.com\<close>; a run of \<^verbatim>\<open>main\<close> whose query returns these rows writes exactly
  these lines to the output file and to standard output.
\<close>

theorem pipeline_example:
  "process_identities [''*.b.com'', ''a.com'', ''a.com'', ''*.a.com'', ''b.com'']
     = ([''*.a.com'', ''*.b.com''], [''a.com'', ''b.com''])
   \<and> file_text ''com_identities.txt''
        (snd (main (env_ok\<lparr>query_result :=
                      Inr [Some ''*.b.com'', Some ''a.com'', Some ''a.com'', Some ''*.a.com'',
                           Some ''b.com'']\<rparr>) ''crt-search'' [''com'']))
     = [line ''*.a.com'', line ''*.b.com'', line ''a.com'', line ''b.com'']
   \<and> stdout_text
        (snd (main (env_ok\<lparr>query_result :=
                      Inr [Some ''*.b.com'', Some ''a.com'', Some ''a.com'', Some ''*.a.com'',
                           Some ''b.com'']\<rparr>) ''crt-search'' [''com'']))
     = [line ''*.a.com'', line ''*.b.com'', line ''a.com'', line ''b.com'',
        saved_message ''com_identities.txt'']"
proof -
  let ?res = "[Some ''*.b.com'', Some ''a.com'', Some ''a.com'', Some ''*.a.com'', Some ''b.com'']"
  let ?e = "env_ok\<lparr>query_result := Inr ?res\<rparr>"
  have p: "process_identities [''*.b.com'', ''a.com'', ''a.com'', ''*.a.com'', ''b.com'']
           = ([''*.a.com'', ''*.b.com''], [''a.com'', ''b.com''])"
    by code_simp
  have c: "collect_raw ?res = [''*.b.com'', ''a.com'', ''a.com'', ''*.a.com'', ''b.com'']"
    by (simp add: collect_raw_def MAX_IDENTITIES_def)
  have o: "output_path ''com'' = ''com_identities.txt''"
    by (simp add: output_path_valid length_rule_example)
  have r: "received ?e 0 ss = ss" for ss
    by (rule received_all) (simp add: env_ok_simps)
  have "main ?e ''crt-search'' [''com'']
        = (0, success_trace ?e ''com'' ''com_identities.txt''
                [''*.a.com'', ''*.b.com''] [''a.com'', ''b.com''])"
    using main_success [of "''com''" ?e ?res "''crt-search''"]
    by (simp add: length_rule_example charset_rule_example env_ok_simps p c o)
  with p show ?thesis
    by (simp add: stdout_success_trace file_success_trace r env_ok_simps)
qed

subsection \<open>Rejected domains\<close>

text \<open>
  C6. For every domain argument that violates the length rule (empty, or longer than 255
  characters) or the character-set rule (a character outside \<^verbatim>\<open>[a-zA-Z0-9.-]\<close>), the run
  ends with exit status \<^verbatim>\<open>EXIT_FAILURE\<close> and its only events are those of \<^verbatim>\<open>fatal_error\<close>,
  the entry on standard error and the same entry in the error log: no network event
  happens and the output file is neither checked, created nor written. The quote, the
  double quote, the semicolon and the backtick are outside the character set.
\<close>

theorem invalid_domain_rejected:
  assumes "\<not> (length_rule d \<and> charset_rule d)"
  shows "fst (main e prog [d]) = EXIT_FAILURE \<and> EXIT_FAILURE \<noteq> 0
       \<and> (\<exists>msg. snd (main e prog [d]) =
             Stderr (error_entry (timestamp e) msg) #
             (if log_opens e \<and> log_write_ok e
              then [LogAppend LOG_FILE (error_entry (timestamp e) msg)] else []))
       \<and> filter is_network (snd (main e prog [d])) = []
       \<and> filter is_output_file_io (snd (main e prog [d])) = []
       \<and> list_all (\<lambda>c. \<not> in_bracket c) dangerous_chars"
proof -
  from assms main_validation_failure [of d e prog]
  obtain msg where "main e prog [d] = fatal_outcome e [] msg"
    by auto
  moreover have "list_all (\<lambda>c. \<not> in_bracket c) dangerous_chars"
    by (simp add: list_all_iff in_bracket_dangerous)
  ultimately show ?thesis
    by (auto simp: fatal_outcome_def EXIT_FAILURE_def is_network_def is_output_file_io_def)
qed

theorem invalid_domain_rejected_witness:
  "\<not> (length_rule ''a;b'' \<and> charset_rule ''a;b'')
   \<and> fst (main env_ok ''crt-search'' [''a;b'']) = 1
   \<and> filter is_network (snd (main env_ok ''crt-search'' [''a;b''])) = []
   \<and> filter is_output_file_io (snd (main env_ok ''crt-search'' [''a;b''])) = []
   \<and> \<not> (length_rule [] \<and> charset_rule [])
   \<and> fst (main env_ok ''crt-search'' [[]]) = 1
   \<and> filter is_network (snd (main env_ok ''crt-search'' [[]])) = []
   \<and> filter is_output_file_io (snd (main env_ok ''crt-search'' [[]])) = []"
proof -
  have h: "\<not> (length_rule ''a;b'' \<and> charset_rule ''a;b'')"
    by (simp add: charset_rule_semicolon)
  have h': "\<not> (length_rule [] \<and> charset_rule [])"
    by (simp add: length_rule_example)
  from invalid_domain_rejected [OF h, of env_ok "''crt-search''"]
    invalid_domain_rejected [OF h', of env_ok "''crt-search''"] h h'
  show ?thesis
    by (simp add: EXIT_FAILURE_def)
qed

subsection \<open>Fatal errors\<close>




subsection \<open>An empty result set\<close>

text \<open>
  C9 (as amended). For every valid domain whose query returns an empty result set, and
  provided the output file can be opened for writing, the run creates
  \<^verbatim>\<open><domain>_identities.txt\<close>, writes no line to it, and ends with status 0.
\<close>

theorem empty_result_creates_empty_file:
  assumes "length_rule d" and "charset_rule d" and "regcomp_ok e"
    and "probe_error e = None" and "connect_error e = None"
    and "query_result e = Inr []" and "out_opens e"
  shows "main e prog [d] =
           (0, [DbConnect conninfo, DbFinish, DbConnect conninfo, DbQuery sql [d], DbFinish,
                FileCreate (d @ ''_identities.txt''), FileClose (d @ ''_identities.txt''),
                Stdout (saved_message (d @ ''_identities.txt''))])
       \<and> file_text (d @ ''_identities.txt'') (snd (main e prog [d])) = []"
  using main_success [OF assms, of prog] assms(1)
  by (simp add: collect_raw_Nil process_identities_Nil success_trace_def output_path_valid)

theorem empty_result_creates_empty_file_witness:
  "length_rule ''a.com'' \<and> charset_rule ''a.com'' \<and> regcomp_ok env_ok
   \<and> probe_error env_ok = None \<and> connect_error env_ok = None
   \<and> query_result env_ok = Inr [] \<and> out_opens env_ok
   \<and> main env_ok ''crt-search'' [''a.com''] =
           (0, [DbConnect conninfo, DbFinish, DbConnect conninfo, DbQuery sql [''a.com''],
                DbFinish, FileCreate ''a.com_identities.txt'', FileClose ''a.com_identities.txt'',
                Stdout (saved_message ''a.com_identities.txt'')])
   \<and> file_text ''a.com_identities.txt'' (snd (main env_ok ''crt-search'' [''a.com''])) = []"
  using empty_result_creates_empty_file [of "''a.com''" env_ok "''crt-search''"]
  by (simp add: length_rule_example charset_rule_example env_ok_simps)

text \<open>
  Without the condition on the output file the statement does not hold: when the file
  cannot be opened, the run with an empty result set ends with status 1 and creates no file.
\<close>

theorem empty_result_unwritable_counterexample:
  "length_rule ''a.com'' \<and> charset_rule ''a.com''
   \<and> query_result (env_ok\<lparr>out_opens := False\<rparr>) = Inr []
   \<and> main (env_ok\<lparr>out_opens := False\<rparr>) ''crt-search'' [''a.com''] =
       (1, [DbConnect conninfo, DbFinish, DbConnect conninfo, DbQuery sql [''a.com''], DbFinish,
            Stderr (error_entry ''2024-01-01 00:00:00'' ''Cannot create output file''),
            LogAppend ''script_errors.log''
              (error_entry ''2024-01-01 00:00:00'' ''Cannot create output file'')])"
  using main_output_failure [of "''a.com''" "env_ok\<lparr>out_opens := False\<rparr>" "[]" "''crt-search''"]
  by (simp add: length_rule_example charset_rule_example env_ok_simps fatal_outcome_def
      EXIT_FAILURE_def LOG_FILE_def timestamp_updates timestamp_env_ok)

subsection \<open>The output path of a valid domain\<close>

lemma no_DirCheck_print_loop: "DirCheck p \<notin> set (print_loop e f k ss)"
  by (induction ss arbitrary: k) auto

lemma no_FileCreate_print_loop: "FileCreate p \<notin> set (print_loop e f k ss)"
  by (induction ss arbitrary: k) auto

lemma no_DirCheck_success: "DirCheck p \<notin> set (success_trace e d f wild norm)"
  by (simp add: success_trace_def no_DirCheck_print_loop)

lemma FileCreate_success:
  "FileCreate p \<in> set (success_trace e d f wild norm) \<longleftrightarrow> p = f"
  by (auto simp: success_trace_def no_FileCreate_print_loop)

lemma no_dir_file_fatal:
  assumes "set pre \<subseteq> {DbConnect conninfo, DbFinish, DbQuery sql [d]}"
  shows "DirCheck p \<notin> set (snd (fatal_outcome e pre msg))"
    and "FileCreate p \<notin> set (snd (fatal_outcome e pre msg))"
  using assms by (auto simp: fatal_outcome_def)

text \<open>
  C10. For every domain that passes validation, the output path is
  \<^verbatim>\<open><domain>_identities.txt\<close> and holds no slash, so the directory block of \<^verbatim>\<open>main\<close> finds
  no slash and does nothing: it neither checks a directory nor raises its fatal error, no
  run on such a domain has a directory check in its trace, and the only file a run creates
  is that path, relative to the current directory.
\<close>

theorem valid_domain_skips_directory_check:
  assumes "validate_domain e d = Inr r"
  shows "output_path d = d @ ''_identities.txt''
       \<and> CHR ''/'' \<notin> set (output_path d)
       \<and> strrchr (output_path d) (CHR ''/'') = None
       \<and> check_output_dir e (output_path d) = Inr []
       \<and> (\<forall>p. DirCheck p \<notin> set (snd (main e prog [d])))
       \<and> (\<forall>p. FileCreate p \<in> set (snd (main e prog [d]))
              \<longrightarrow> p = d @ ''_identities.txt'' \<and> CHR ''/'' \<notin> set p)"
proof -
  from assms have v: "length_rule d" "charset_rule d"
    by (simp_all add: validate_domain_Inr_iff)
  then have p: "output_path d = d @ ''_identities.txt''"
    by (simp add: output_path_valid)
  from v have s: "CHR ''/'' \<notin> set (output_path d)"
    by (rule output_path_no_slash)
  then have r: "strrchr (output_path d) (CHR ''/'') = None"
    by (simp add: strrchr_None_iff)
  from v have c: "check_output_dir e (output_path d) = Inr []"
    by (rule check_output_dir_valid)
  have t1: "DirCheck q \<notin> set (snd (main e prog [d]))" for q
    using main_cases [of e prog d]
    by (auto simp: no_DirCheck_success no_dir_file_fatal)
  have t2: "q = output_path d"
    if "FileCreate q \<in> set (snd (main e prog [d]))" for q
    using main_cases [of e prog d] that
    by (auto simp: FileCreate_success no_dir_file_fatal)
  from p s r c t1 t2 show ?thesis by metis
qed

theorem valid_domain_skips_directory_check_witness:
  "validate_domain env_ok ''a.com'' = Inr 1
   \<and> output_path ''a.com'' = ''a.com_identities.txt''
   \<and> check_output_dir env_ok (output_path ''a.com'') = Inr []
   \<and> FileCreate ''a.com_identities.txt'' \<in> set (snd (main env_ok ''crt-search'' [''a.com'']))
   \<and> CHR ''/'' \<notin> set ''a.com_identities.txt''"
proof -
  have h: "validate_domain env_ok ''a.com'' = Inr 1"
    by (simp add: validate_domain_passes length_rule_example charset_rule_example env_ok_simps)
  have o: "output_path ''a.com'' = ''a.com_identities.txt''"
    by (simp add: output_path_valid length_rule_example)
  have "main env_ok ''crt-search'' [''a.com'']
        = (0, success_trace env_ok ''a.com'' (output_path ''a.com'')
                (fst (process_identities (collect_raw [])))
                (snd (process_identities (collect_raw []))))"
    by (rule main_success)
       (simp_all add: length_rule_example charset_rule_example env_ok_simps)
  then have m: "FileCreate ''a.com_identities.txt''
                  \<in> set (snd (main env_ok ''crt-search'' [''a.com'']))"
    by (simp add: FileCreate_success o)
  from valid_domain_skips_directory_check [OF h, of "''crt-search''"]
  have c: "check_output_dir env_ok (output_path ''a.com'') = Inr []"
    by blast
  from h o c m show ?thesis
    by simp
qed

end
